theory Spec2Isabelle
  imports Complex_Main
begin

section \<open>Future value of a monthly savings plan (app.py)\<close>

text \<open>
  The embedding follows \<^verbatim>\<open>src/app.py\<close>. Python's \<^verbatim>\<open>float\<close> is modelled by the
  mathematical reals: every arithmetic operation is exact, so rounding to binary64 and
  the finite range of doubles are not part of the model. Python's \<^verbatim>\<open>int\<close> is
  \<^typ>\<open>int\<close>. An exception is a value \<open>Inl e\<close> of the result type.

  The two annuity functions are embedded a second time with every float operation
  rounded to binary64 (\<open>fv_annuity_ordinary_b64\<close>, \<open>fv_annuity_b64\<close>); the properties
  that rounding decides are stated about that embedding.
\<close>

subsection \<open>Exceptions\<close>

datatype py_error = ZeroDivisionError | ValueError | TypeError | OverflowError

subsection \<open>Helpers of the source\<close>

text \<open>
  \<^verbatim>\<open>x ** n\<close> for a float base and an int exponent. A negative exponent is the inverse
  power, and Python raises ZeroDivisionError when the base is zero and the exponent is
  negative.
\<close>

definition py_pow :: "real \<Rightarrow> int \<Rightarrow> py_error + real" where
  "py_pow x n = (if x = 0 \<and> n < 0 then Inl ZeroDivisionError else Inr (x powi n))"

text \<open>
  \<^verbatim>\<open>
  def fv_annuity_ordinary(P: float, r: float, n: int) -> float:
      if r == 0:
          return P * n
      return P * ((1 + r) ** n - 1) / r
  \<close>
\<close>

definition fv_annuity_ordinary :: "real \<Rightarrow> real \<Rightarrow> int \<Rightarrow> py_error + real" where
  "fv_annuity_ordinary P r n =
     (if r = 0 then Inr (P * of_int n)
      else (case py_pow (1 + r) n of
              Inl e \<Rightarrow> Inl e
            | Inr p \<Rightarrow> Inr (P * (p - 1) / r)))"

text \<open>
  \<^verbatim>\<open>
  def fv_annuity(P: float, r: float, n: int, due: bool = False) -> float:
      base = fv_annuity_ordinary(P, r, n)
      return base * (1 + r) if due else base
  \<close>
\<close>

definition fv_annuity :: "real \<Rightarrow> real \<Rightarrow> int \<Rightarrow> bool \<Rightarrow> py_error + real" where
  "fv_annuity P r n due =
     (case fv_annuity_ordinary P r n of
        Inl e \<Rightarrow> Inl e
      | Inr base \<Rightarrow> Inr (if due then base * (1 + r) else base))"

subsection \<open>The page script: inputs, rate conversion, tables\<close>

text \<open>
  The values read from the widgets. \<open>input_P\<close> is the monthly deposit \<^verbatim>\<open>P\<close> (an int
  field with minimum 0), \<open>durasi\<close> is the number typed into the duration field (years,
  1 to 50, when \<open>durasi_unit\<close> is \<^verbatim>\<open>"Tahun"\<close>; months, 1 to 600, otherwise),
  \<open>r_percent\<close> is the slider (0 to 50).
\<close>

record inputs =
  input_P :: int
  durasi_unit :: string
  durasi :: int
  period_choice :: string
  r_percent :: real
  timing :: string

text \<open>
  \<^verbatim>\<open>
  if durasi_unit == "Tahun":
      years = st.number_input(...)
      months = int(years * 12)
  else:
      months = st.number_input(...)
      years = months // 12
  \<close>
\<close>

definition months :: "inputs \<Rightarrow> int" where
  "months i = (if durasi_unit i = ''Tahun'' then durasi i * 12 else durasi i)"

definition years :: "inputs \<Rightarrow> int" where
  "years i = (if durasi_unit i = ''Tahun'' then durasi i else durasi i div 12)"

text \<open>\<^verbatim>\<open>is_due = (timing == "Awal Bulan (Annuity Due)")\<close>\<close>

definition is_due :: "inputs \<Rightarrow> bool" where
  "is_due i = (timing i = ''Awal Bulan (Annuity Due)'')"

text \<open>
  \<^verbatim>\<open>
  if period_choice == "Per Bulan":
      r_month = r_percent / 100.0
  else:  # Per Tahun
      r_month = (r_percent / 100.0) / 12.0
  \<close>
\<close>

definition r_month :: "inputs \<Rightarrow> real" where
  "r_month i =
     (if period_choice i = ''Per Bulan'' then r_percent i / 100
      else (r_percent i / 100) / 12)"

text \<open>\<^verbatim>\<open>FV = fv_annuity(P, r_month, int(months), due=is_due)\<close>\<close>

definition FV :: "inputs \<Rightarrow> py_error + real" where
  "FV i = fv_annuity (of_int (input_P i)) (r_month i) (months i) (is_due i)"

text \<open>A row of the yearly table (the dict appended to \<^verbatim>\<open>records\<close>).\<close>

record year_row =
  tahun :: int
  setoran_kumulatif :: int
  future_value :: real
  bunga_return :: real

text \<open>
  The body of the loop over \<^verbatim>\<open>y\<close>:
  \<^verbatim>\<open>
  m = y * 12
  fv_y = fv_annuity(P, r_month, m, due=is_due)
  principal_y = P * m
  interest_y = fv_y - principal_y
  records.append({"Tahun": y, "Setoran Kumulatif": principal_y,
                  "Future Value": fv_y, "Bunga/Return": interest_y})
  \<close>
\<close>

definition year_record :: "int \<Rightarrow> real \<Rightarrow> bool \<Rightarrow> int \<Rightarrow> py_error + year_row" where
  "year_record P r due y =
     (let m = y * 12 in
      case fv_annuity (of_int P) r m due of
        Inl e \<Rightarrow> Inl e
      | Inr fv_y \<Rightarrow>
          (let principal_y = P * m;
               interest_y = fv_y - of_int principal_y
           in Inr \<lparr>tahun = y, setoran_kumulatif = principal_y,
                    future_value = fv_y, bunga_return = interest_y\<rparr>))"

text \<open>
  A loop (or list comprehension) that appends \<open>f x\<close> for each \<open>x\<close> in order; the first
  exception ends it.
\<close>

fun collect :: "('a \<Rightarrow> py_error + 'b) \<Rightarrow> 'a list \<Rightarrow> py_error + 'b list" where
  "collect f [] = Inr []"
| "collect f (x # xs) =
     (case f x of
        Inl e \<Rightarrow> Inl e
      | Inr v \<Rightarrow> (case collect f xs of Inl e \<Rightarrow> Inl e | Inr vs \<Rightarrow> Inr (v # vs)))"

text \<open>
  \<^verbatim>\<open>
  if years >= 1:
      records = []
      for y in range(1, years + 1): ...
  \<close>
  With \<open>years < 1\<close> no table is built: the result is \<open>None\<close>.
\<close>

definition records :: "inputs \<Rightarrow> (py_error + year_row list) option" where
  "records i =
     (if years i \<ge> 1
      then Some (collect (year_record (input_P i) (r_month i) (is_due i)) [1..years i])
      else None)"

text \<open>
  \<^verbatim>\<open>progress = [fv_annuity(P, r_month, m, due=is_due) for m in range(1, int(months) + 1)]\<close>
\<close>

definition progress :: "inputs \<Rightarrow> py_error + real list" where
  "progress i =
     collect (\<lambda>m. fv_annuity (of_int (input_P i)) (r_month i) m (is_due i)) [1..months i]"

text \<open>The default values of the widgets.\<close>

definition default_inputs :: inputs where
  "default_inputs =
     \<lparr>input_P = 400000, durasi_unit = ''Tahun'', durasi = 8,
      period_choice = ''Per Tahun'', r_percent = 5,
      timing = ''Akhir Bulan (Ordinary)''\<rparr>"

subsection \<open>Currency formatting\<close>

text \<open>A float value: a finite number, an infinity or NaN.\<close>

datatype py_float = Fin real | PInf | NInf | NaN

text \<open>
  \<^verbatim>\<open>fmt_rp(x: Any)\<close> uses its argument through \<^verbatim>\<open>float(x)\<close> and \<^verbatim>\<open>str(x)\<close> only, so an
  argument is given by the outcomes of these two calls.
\<close>

record py_obj =
  float_result :: "py_error + py_float"
  str_result :: string

text \<open>
  \<^verbatim>\<open>float(s)\<close> for a string of ASCII characters: surrounding whitespace (the
  characters 9 to 13 and the space) is dropped, an
  underscore may stand between two digits, and what remains is an optional sign
  followed by \<^verbatim>\<open>inf\<close>, \<^verbatim>\<open>infinity\<close> or \<^verbatim>\<open>nan\<close> in any case, or by a decimal numeral with
  an optional fraction and exponent. Anything else raises ValueError (\<open>None\<close> here).
\<close>

definition is_space :: "char \<Rightarrow> bool" where
  "is_space c =
     (let k = (of_char c :: nat) in (9 \<le> k \<and> k \<le> 13) \<or> k = 32)"

definition is_digit :: "char \<Rightarrow> bool" where
  "is_digit c = (let k = (of_char c :: nat) in 48 \<le> k \<and> k \<le> 57)"

definition digit_val :: "char \<Rightarrow> nat" where
  "digit_val c = of_char c - 48"

definition lower :: "char \<Rightarrow> char" where
  "lower c =
     (case map_of (zip ''ABCDEFGHIJKLMNOPQRSTUVWXYZ'' ''abcdefghijklmnopqrstuvwxyz'') c of
        None \<Rightarrow> c
      | Some d \<Rightarrow> d)"

definition strip :: "string \<Rightarrow> string" where
  "strip s = rev (dropWhile is_space (rev (dropWhile is_space s)))"

fun underscores_ok :: "char option \<Rightarrow> string \<Rightarrow> bool" where
  "underscores_ok prev [] = True"
| "underscores_ok prev (c # cs) =
     (if c = CHR ''_''
      then (case prev of None \<Rightarrow> False | Some p \<Rightarrow> is_digit p)
           \<and> (case cs of [] \<Rightarrow> False | d # _ \<Rightarrow> is_digit d)
           \<and> underscores_ok (Some c) cs
      else underscores_ok (Some c) cs)"

definition nat_of_digits :: "string \<Rightarrow> nat" where
  "nat_of_digits ds = foldl (\<lambda>a d. 10 * a + digit_val d) 0 ds"

definition parse_exponent :: "string \<Rightarrow> int option" where
  "parse_exponent s =
     (case s of
        [] \<Rightarrow> Some 0
      | c # cs \<Rightarrow>
          if c \<noteq> CHR ''e'' then None
          else (let (neg, ds) =
                      (case cs of
                         [] \<Rightarrow> (False, cs)
                       | d # ds' \<Rightarrow> if d = CHR ''-'' then (True, ds')
                                   else if d = CHR ''+'' then (False, ds')
                                   else (False, cs))
                in if ds = [] \<or> \<not> list_all is_digit ds then None
                   else Some (if neg then - int (nat_of_digits ds)
                              else int (nat_of_digits ds))))"

definition parse_decimal :: "string \<Rightarrow> real option" where
  "parse_decimal s =
     (let ip = takeWhile is_digit s;
          rest = dropWhile is_digit s;
          (fp, rest') =
             (case rest of
                [] \<Rightarrow> ([], rest)
              | c # cs \<Rightarrow>
                  if c = CHR ''.'' then (takeWhile is_digit cs, dropWhile is_digit cs)
                  else ([], rest))
      in if ip = [] \<and> fp = [] then None
         else (case parse_exponent rest' of
                 None \<Rightarrow> None
               | Some e \<Rightarrow>
                   Some ((of_nat (nat_of_digits ip)
                          + of_nat (nat_of_digits fp) / 10 ^ length fp) * 10 powi e)))"

definition parse_unsigned :: "string \<Rightarrow> py_float option" where
  "parse_unsigned s =
     (if s = ''inf'' \<or> s = ''infinity'' then Some PInf
      else if s = ''nan'' then Some NaN
      else map_option Fin (parse_decimal s))"

definition negate :: "py_float \<Rightarrow> py_float" where
  "negate v = (case v of Fin x \<Rightarrow> Fin (- x) | PInf \<Rightarrow> NInf | NInf \<Rightarrow> PInf | NaN \<Rightarrow> NaN)"

definition str_to_float :: "string \<Rightarrow> py_float option" where
  "str_to_float s =
     (if \<not> underscores_ok None s then None
      else (let t = map lower (filter (\<lambda>c. c \<noteq> CHR ''_'') (strip s))
            in case t of
                 [] \<Rightarrow> None
               | c # cs \<Rightarrow> if c = CHR ''-'' then map_option negate (parse_unsigned cs)
                           else if c = CHR ''+'' then parse_unsigned cs
                           else parse_unsigned t))"

text \<open>
  \<^verbatim>\<open>round(val)\<close> of a float, with no digits argument: the nearest integer, a tie going
  to the even one; ValueError for NaN and OverflowError for an infinity.
\<close>

definition round_half_even :: "real \<Rightarrow> int" where
  "round_half_even v =
     (let f = \<lfloor>v\<rfloor>; d = v - of_int f
      in if d < 1/2 then f else if 1/2 < d then f + 1 else if even f then f else f + 1)"

definition py_round :: "py_float \<Rightarrow> py_error + int" where
  "py_round v =
     (case v of
        Fin x \<Rightarrow> Inr (round_half_even x)
      | PInf \<Rightarrow> Inl OverflowError
      | NInf \<Rightarrow> Inl OverflowError
      | NaN \<Rightarrow> Inl ValueError)"

text \<open>
  The format \<^verbatim>\<open>{k:,.0f}\<close> of an int \<open>k\<close>: the sign, then the decimal digits with a
  comma before every group of three counted from the right.
\<close>

fun digits_of :: "nat \<Rightarrow> string" where
  "digits_of n =
     (if n < 10 then [''0123456789'' ! n]
      else digits_of (n div 10) @ [''0123456789'' ! (n mod 10)])"

declare digits_of.simps [simp del]

fun group3 :: "string \<Rightarrow> string" where
  "group3 (a # b # c # d # ds) = a # b # c # CHR '','' # group3 (d # ds)"
| "group3 ds = ds"

definition format_grouped :: "int \<Rightarrow> string" where
  "format_grouped k =
     (if k < 0 then ''-'' else []) @ rev (group3 (rev (digits_of (nat \<bar>k\<bar>))))"

text \<open>\<^verbatim>\<open>.replace(",", ".")\<close>\<close>

definition replace_comma :: "string \<Rightarrow> string" where
  "replace_comma s = map (\<lambda>c. if c = CHR '','' then CHR ''.'' else c) s"

text \<open>
  \<^verbatim>\<open>
  def fmt_rp(x: Any) -> str:
      try:
          val = float(x)
      except (ValueError, TypeError):
          return str(x)
      return f"Rp{int(round(val)):,.0f}".replace(",", ".")
  \<close>
  \<^verbatim>\<open>round\<close> already returns an int, so \<^verbatim>\<open>int(...)\<close> changes nothing. The call of
  \<^verbatim>\<open>round\<close> is outside the \<^verbatim>\<open>try\<close>: what it raises leaves the function.
\<close>

definition fmt_rp :: "py_obj \<Rightarrow> py_error + string" where
  "fmt_rp x =
     (case float_result x of
        Inl e \<Rightarrow> if e = ValueError \<or> e = TypeError then Inr (str_result x) else Inl e
      | Inr val \<Rightarrow>
          (case py_round val of
             Inl e \<Rightarrow> Inl e
           | Inr k \<Rightarrow> Inr (replace_comma (''Rp'' @ format_grouped k))))"

text \<open>The arguments that the properties below use: a string, an int, \<^verbatim>\<open>None\<close>, a float.\<close>

definition py_str_obj :: "string \<Rightarrow> py_obj" where
  "py_str_obj s =
     \<lparr>float_result = (case str_to_float s of None \<Rightarrow> Inl ValueError | Some v \<Rightarrow> Inr v),
      str_result = s\<rparr>"

definition py_int_obj :: "int \<Rightarrow> py_obj" where
  "py_int_obj k =
     \<lparr>float_result = Inr (Fin (of_int k)),
      str_result = (if k < 0 then ''-'' else []) @ digits_of (nat \<bar>k\<bar>)\<rparr>"

definition py_none_obj :: py_obj where
  "py_none_obj = \<lparr>float_result = Inl TypeError, str_result = ''None''\<rparr>"

definition py_inf_obj :: py_obj where
  "py_inf_obj = \<lparr>float_result = Inr PInf, str_result = ''inf''\<rparr>"

subsection \<open>The annuity functions in binary64 arithmetic\<close>

text \<open>
  A binary64 number has a significand of 53 bits. \<open>b64 x\<close> is the binary64 number
  nearest to \<open>x\<close>, a tie going to the even significand (the rounding of every float
  operation of CPython): with \<open>e = expo x\<close> the binary exponent of \<open>x\<close>
  (\<open>2\<^sup>e \<le> \<bar>x\<bar> < 2\<^sup>e\<^sup>+\<^sup>1\<close>), \<open>x\<close> is rounded to a multiple of \<open>2\<^sup>e\<^sup>-\<^sup>5\<^sup>2\<close>. The exponent range
  is not bounded, so overflow to an infinity and the subnormal numbers are not part of
  the model; the inputs of the page (a deposit below \<open>2\<^sup>5\<^sup>3\<close>, a rate of at most 50
  percent, at most 600 periods) stay far inside the range of binary64.
\<close>

definition expo :: "real \<Rightarrow> int" where
  "expo x = \<lfloor>log 2 \<bar>x\<bar>\<rfloor>"

definition b64 :: "real \<Rightarrow> real" where
  "b64 x =
     (if x = 0 then 0
      else (let q = 2 powi (expo x - 52)
            in of_int (round_half_even (x / q)) * q))"

text \<open>
  A number of the source is an \<^verbatim>\<open>int\<close> or a \<^verbatim>\<open>float\<close>: the page passes the deposit and
  the number of periods as ints and the rate as a float. \<open>num_val\<close> is the value of a
  number; \<open>to_float\<close> is the conversion that an operation with a float operand applies
  to an int operand; \<open>num_mul\<close> is \<^verbatim>\<open>*\<close>: exact on two ints, a rounded float product
  otherwise.
\<close>

datatype py_num = PyInt int | PyFloat real

definition num_val :: "py_num \<Rightarrow> real" where
  "num_val a = (case a of PyInt i \<Rightarrow> of_int i | PyFloat x \<Rightarrow> x)"

definition to_float :: "py_num \<Rightarrow> real" where
  "to_float a = (case a of PyInt i \<Rightarrow> b64 (of_int i) | PyFloat x \<Rightarrow> x)"

definition num_mul :: "py_num \<Rightarrow> py_num \<Rightarrow> py_num" where
  "num_mul a b =
     (case a of
        PyInt i \<Rightarrow> (case b of PyInt j \<Rightarrow> PyInt (i * j)
                     | PyFloat y \<Rightarrow> PyFloat (b64 (to_float a * y)))
      | PyFloat x \<Rightarrow> PyFloat (b64 (x * to_float b)))"

text \<open>
  \<^verbatim>\<open>(1 + r) ** n\<close> with a float base is computed by the \<^verbatim>\<open>pow\<close> function of the C
  library, which the embedding takes as a parameter \<open>pw\<close>. \<open>pow_rn\<close> is the correctly
  rounded power.
\<close>

definition pow_rn :: "real \<Rightarrow> int \<Rightarrow> real" where
  "pow_rn x n = b64 (x powi n)"

text \<open>
  \<^verbatim>\<open>
  if r == 0:
      return P * n
  return P * ((1 + r) ** n - 1) / r
  \<close>
  with \<open>r\<close> a float: \<open>s\<close> is \<^verbatim>\<open>1 + r\<close>, \<open>p\<close> is \<^verbatim>\<open>s ** n\<close>, \<open>d\<close> is \<^verbatim>\<open>p - 1\<close>, \<open>m\<close> is
  \<^verbatim>\<open>P * d\<close>, and the result is \<^verbatim>\<open>m / r\<close>. With \<open>r = 0\<close> the product \<^verbatim>\<open>P * n\<close> of two ints
  is an int.
\<close>

definition fv_annuity_ordinary_b64 ::
    "(real \<Rightarrow> int \<Rightarrow> real) \<Rightarrow> py_num \<Rightarrow> real \<Rightarrow> int \<Rightarrow> py_error + py_num" where
  "fv_annuity_ordinary_b64 pw P r n =
     (if r = 0 then Inr (num_mul P (PyInt n))
      else (let s = b64 (1 + r) in
            if s = 0 \<and> n < 0 then Inl ZeroDivisionError
            else (let p = pw s n;
                      d = b64 (p - 1);
                      m = b64 (to_float P * d)
                  in Inr (PyFloat (b64 (m / r))))))"

text \<open>
  \<^verbatim>\<open>
  base = fv_annuity_ordinary(P, r, n)
  return base * (1 + r) if due else base
  \<close>
\<close>

definition fv_annuity_b64 ::
    "(real \<Rightarrow> int \<Rightarrow> real) \<Rightarrow> py_num \<Rightarrow> real \<Rightarrow> int \<Rightarrow> bool \<Rightarrow> py_error + py_num" where
  "fv_annuity_b64 pw P r n due =
     (case fv_annuity_ordinary_b64 pw P r n of
        Inl e \<Rightarrow> Inl e
      | Inr base \<Rightarrow>
          Inr (if due then PyFloat (b64 (to_float base * b64 (1 + r))) else base))"

subsection \<open>Auxiliary notions for the statements\<close>


text \<open>
  The number that \<open>fv_annuity\<close> returns for \<open>n \<ge> 0\<close> (lemma \<open>fv_annuity_nonneg\<close>
  below); it abbreviates the statements of the lemmas about the tables.
\<close>

definition closed_form :: "real \<Rightarrow> real \<Rightarrow> int \<Rightarrow> bool \<Rightarrow> real" where
  "closed_form P r n due =
     (if r = 0 then P * of_int n else P * ((1 + r) ^ nat n - 1) / r)
     * (if due then 1 + r else 1)"

text \<open>
  Comparison of two results of the binary64 embedding: both calls returned, and the
  first returned number is at most the second.
\<close>

definition result_le :: "py_error + py_num \<Rightarrow> py_error + py_num \<Rightarrow> bool" where
  "result_le a b =
     (case a of Inl _ \<Rightarrow> False
      | Inr x \<Rightarrow> (case b of Inl _ \<Rightarrow> False | Inr y \<Rightarrow> num_val x \<le> num_val y))"

text \<open>
  The unit roundoff of binary64 is \<open>u53 = 2\<^sup>-\<^sup>5\<^sup>3\<close>. \<open>close_to g t x\<close>: the computed
  number \<open>x\<close> is the exact number \<open>t\<close> up to the relative error \<open>g - 1\<close>.
  \<open>rounding_factor r k\<close> bounds the factor of \<^verbatim>\<open>(1 + r) ** 1 - 1\<close> followed by \<open>k\<close> more
  rounded operations: the subtraction cancels, which divides the rounding error of
  \<^verbatim>\<open>1 + r\<close> by \<open>r\<close>.
\<close>

definition u53 :: real where
  "u53 = 1 / 2 ^ 53"

definition close_to :: "real \<Rightarrow> real \<Rightarrow> real \<Rightarrow> bool" where
  "close_to g t x \<longleftrightarrow> \<bar>x - t\<bar> \<le> t * (g - 1)"

definition rounding_factor :: "real \<Rightarrow> nat \<Rightarrow> real" where
  "rounding_factor r k = (1 + u53 * (1 + r) / r) * (1 + u53) ^ k"

section \<open>Properties of the annuity formulas\<close>

lemma py_pow_nonneg: "0 \<le> n \<Longrightarrow> py_pow x n = Inr (x ^ nat n)"
  by (simp add: py_pow_def power_int_def)

lemma fv_annuity_ordinary_nonneg:
  "0 \<le> n \<Longrightarrow>
   fv_annuity_ordinary P r n =
     Inr (if r = 0 then P * of_int n else P * ((1 + r) ^ nat n - 1) / r)"
  by (simp add: fv_annuity_ordinary_def py_pow_nonneg)

lemma fv_annuity_nonneg:
  "0 \<le> n \<Longrightarrow>
   fv_annuity P r n due =
     Inr ((if r = 0 then P * of_int n else P * ((1 + r) ^ nat n - 1) / r)
          * (if due then 1 + r else 1))"
  by (simp add: fv_annuity_def fv_annuity_ordinary_nonneg)








text \<open>
  C10. With zero periods both functions return \<open>0\<close>, without raising, for every
  \<open>P\<close>, every rate \<open>r\<close> (so also for every \<open>r > - 1\<close>) and both timing modes.
\<close>

theorem fv_annuity_zero_periods:
  "fv_annuity_ordinary P r 0 = Inr 0 \<and> fv_annuity P r 0 due = Inr 0"
  by (simp add: fv_annuity_def fv_annuity_ordinary_def py_pow_def)


section \<open>Properties of the page script\<close>

lemma collect_all_Inr:
  "(\<And>x. x \<in> set xs \<Longrightarrow> f x = Inr (g x)) \<Longrightarrow> collect f xs = Inr (map g xs)"
  by (induction xs) simp_all

lemma progress_eq:
  "progress i =
     Inr (map (\<lambda>m. closed_form (of_int (input_P i)) (r_month i) m (is_due i)) [1..months i])"
  unfolding progress_def
  by (rule collect_all_Inr) (simp add: fv_annuity_nonneg closed_form_def)

lemma year_record_eq:
  "1 \<le> y \<Longrightarrow>
   year_record P r due y =
     Inr \<lparr>tahun = y, setoran_kumulatif = P * (y * 12),
          future_value = closed_form (of_int P) r (y * 12) due,
          bunga_return = closed_form (of_int P) r (y * 12) due - of_int (P * (y * 12))\<rparr>"
  by (simp add: year_record_def fv_annuity_nonneg closed_form_def Let_def)

lemma years_months: "years i = months i div 12"
  by (simp add: years_def months_def)

lemma records_built:
  "1 \<le> years i \<Longrightarrow>
   records i = Some (collect (year_record (input_P i) (r_month i) (is_due i)) [1..years i])"
  by (simp add: records_def)

lemma year_rows_eq:
  "collect (year_record (input_P i) (r_month i) (is_due i)) [1..years i]
     = Inr (map (\<lambda>y. \<lparr>tahun = y, setoran_kumulatif = input_P i * (y * 12),
                  future_value = closed_form (of_int (input_P i)) (r_month i) (y * 12) (is_due i),
                  bunga_return = closed_form (of_int (input_P i)) (r_month i) (y * 12) (is_due i)
                                   - of_int (input_P i * (y * 12))\<rparr>) [1..years i])"
  apply (rule collect_all_Inr)
  apply (rule year_record_eq)
  apply simp
  done

lemma records_eq:
  "1 \<le> years i \<Longrightarrow>
   records i =
     Some (Inr (map (\<lambda>y. \<lparr>tahun = y, setoran_kumulatif = input_P i * (y * 12),
                  future_value = closed_form (of_int (input_P i)) (r_month i) (y * 12) (is_due i),
                  bunga_return = closed_form (of_int (input_P i)) (r_month i) (y * 12) (is_due i)
                                   - of_int (input_P i * (y * 12))\<rparr>) [1..years i]))"
  by (simp only: records_built year_rows_eq)

text \<open>
  C7. The rate conversion is linear. For the choice \<^verbatim>\<open>"Per Tahun"\<close> and a percentage
  \<open>a\<close> the monthly rate is \<open>(a / 100) / 12\<close>, for \<^verbatim>\<open>"Per Bulan"\<close> and a percentage \<open>p\<close>
  it is \<open>p / 100\<close>, and this rate is the one passed to \<open>fv_annuity\<close> for the summary,
  the monthly progression and every row of the yearly table.
\<close>

theorem r_month_linear:
  "r_month (i\<lparr>period_choice := ''Per Tahun'', r_percent := a\<rparr>) = (a / 100) / 12
   \<and> r_month (i\<lparr>period_choice := ''Per Bulan'', r_percent := p\<rparr>) = p / 100
   \<and> FV (i\<lparr>period_choice := ''Per Tahun'', r_percent := a\<rparr>)
       = fv_annuity (of_int (input_P i)) ((a / 100) / 12) (months i) (is_due i)
   \<and> FV (i\<lparr>period_choice := ''Per Bulan'', r_percent := p\<rparr>)
       = fv_annuity (of_int (input_P i)) (p / 100) (months i) (is_due i)
   \<and> progress (i\<lparr>period_choice := ''Per Tahun'', r_percent := a\<rparr>)
       = collect (\<lambda>m. fv_annuity (of_int (input_P i)) ((a / 100) / 12) m (is_due i))
           [1..months i]
   \<and> progress (i\<lparr>period_choice := ''Per Bulan'', r_percent := p\<rparr>)
       = collect (\<lambda>m. fv_annuity (of_int (input_P i)) (p / 100) m (is_due i)) [1..months i]
   \<and> records (i\<lparr>period_choice := ''Per Tahun'', r_percent := a\<rparr>)
       = (if years i \<ge> 1
          then Some (collect (year_record (input_P i) ((a / 100) / 12) (is_due i)) [1..years i])
          else None)
   \<and> records (i\<lparr>period_choice := ''Per Bulan'', r_percent := p\<rparr>)
       = (if years i \<ge> 1
          then Some (collect (year_record (input_P i) (p / 100) (is_due i)) [1..years i])
          else None)"
  by (simp add: r_month_def FV_def progress_def records_def months_def years_def is_due_def)

lemma progress_entries_part:
  "\<exists>vs. progress i = Inr vs \<and> length vs = nat (months i)
     \<and> (\<forall>k < length vs.
           fv_annuity (of_int (input_P i)) (r_month i) (int k + 1) (is_due i) = Inr (vs ! k))"
proof -
  let ?g = "\<lambda>m. closed_form (of_int (input_P i)) (r_month i) m (is_due i)"
  have "progress i = Inr (map ?g [1..months i])"
    by (rule progress_eq)
  moreover have "length (map ?g [1..months i]) = nat (months i)"
    by simp
  moreover have "fv_annuity (of_int (input_P i)) (r_month i) (int k + 1) (is_due i)
                   = Inr (map ?g [1..months i] ! k)"
    if "k < length (map ?g [1..months i])" for k
    using that by (simp add: fv_annuity_nonneg closed_form_def add.commute)
  ultimately show ?thesis
    by blast
qed

lemma records_entries_part:
  assumes "1 \<le> months i div 12"
  shows "\<exists>rows. records i = Some (Inr rows) \<and> length rows = nat (months i div 12)
           \<and> (\<forall>k < length rows.
                 tahun (rows ! k) = int k + 1
                 \<and> fv_annuity (of_int (input_P i)) (r_month i) ((int k + 1) * 12) (is_due i)
                     = Inr (future_value (rows ! k)))
           \<and> fv_annuity (of_int (input_P i)) (r_month i) (months i div 12 * 12) (is_due i)
               = Inr (future_value (last rows))"
proof -
  let ?row = "\<lambda>y. \<lparr>tahun = y, setoran_kumulatif = input_P i * (y * 12),
                  future_value = closed_form (of_int (input_P i)) (r_month i) (y * 12) (is_due i),
                  bunga_return = closed_form (of_int (input_P i)) (r_month i) (y * 12) (is_due i)
                                   - of_int (input_P i * (y * 12))\<rparr>"
  define rows where "rows = map ?row [1..years i]"
  have y: "1 \<le> years i"
    using assms by (simp add: years_months)
  have len: "length rows = nat (months i div 12)"
    by (simp add: rows_def years_months)
  have nth: "tahun (rows ! k) = int k + 1
        \<and> fv_annuity (of_int (input_P i)) (r_month i) ((int k + 1) * 12) (is_due i)
            = Inr (future_value (rows ! k))"
    if "k < length rows" for k
    using that by (simp add: rows_def fv_annuity_nonneg closed_form_def add.commute)
  have ne: "[1..years i] \<noteq> []"
    using y by simp
  have "last [1..years i] = years i"
    using y by (simp add: upto_rec2)
  then have "future_value (last rows)
        = closed_form (of_int (input_P i)) (r_month i) (months i div 12 * 12) (is_due i)"
    using ne by (simp add: rows_def last_map years_months)
  moreover have "0 \<le> months i div 12 * 12"
    using assms by simp
  ultimately have lst:
      "fv_annuity (of_int (input_P i)) (r_month i) (months i div 12 * 12) (is_due i)
         = Inr (future_value (last rows))"
    by (simp add: fv_annuity_nonneg closed_form_def)
  have rec: "records i = Some (Inr rows)"
    unfolding rows_def using y by (rule records_eq)
  from rec len nth lst show ?thesis
    by blast
qed

text \<open>
  C8. For a total of 1 to 600 months, the monthly progression has exactly that many
  entries, the entry at position \<open>k\<close> (counted from 0) being what
  \<open>fv_annuity P r_month (k + 1) due\<close> returns. The yearly table has exactly
  \<open>months div 12\<close> rows (no table when that is 0); the row at position \<open>k\<close> is the one
  of year \<open>k + 1\<close>, computed with \<open>n = (k + 1) * 12\<close>, so the last row uses
  \<open>n = (months div 12) * 12\<close>.
\<close>

theorem progression_entries:
  assumes "1 \<le> months i" and "months i \<le> 600"
  shows "(\<exists>vs. progress i = Inr vs \<and> length vs = nat (months i)
            \<and> (\<forall>k < length vs.
                  fv_annuity (of_int (input_P i)) (r_month i) (int k + 1) (is_due i)
                    = Inr (vs ! k)))
         \<and> (case records i of
              None \<Rightarrow> months i div 12 = 0
            | Some res \<Rightarrow>
                (\<exists>rows. res = Inr rows \<and> length rows = nat (months i div 12)
                   \<and> (\<forall>k < length rows.
                         tahun (rows ! k) = int k + 1
                         \<and> fv_annuity (of_int (input_P i)) (r_month i) ((int k + 1) * 12) (is_due i)
                             = Inr (future_value (rows ! k)))
                   \<and> fv_annuity (of_int (input_P i)) (r_month i) (months i div 12 * 12) (is_due i)
                       = Inr (future_value (last rows))))"
proof (rule conjI)
  show "\<exists>vs. progress i = Inr vs \<and> length vs = nat (months i)
            \<and> (\<forall>k < length vs.
                  fv_annuity (of_int (input_P i)) (r_month i) (int k + 1) (is_due i)
                    = Inr (vs ! k))"
    by (rule progress_entries_part)
next
  show "case records i of
              None \<Rightarrow> months i div 12 = 0
            | Some res \<Rightarrow>
                (\<exists>rows. res = Inr rows \<and> length rows = nat (months i div 12)
                   \<and> (\<forall>k < length rows.
                         tahun (rows ! k) = int k + 1
                         \<and> fv_annuity (of_int (input_P i)) (r_month i) ((int k + 1) * 12) (is_due i)
                             = Inr (future_value (rows ! k)))
                   \<and> fv_annuity (of_int (input_P i)) (r_month i) (months i div 12 * 12) (is_due i)
                       = Inr (future_value (last rows)))"
  proof (cases "1 \<le> months i div 12")
    case False
    with assms have zero: "months i div 12 = 0"
      by simp
    then have "records i = None"
      by (simp add: records_def years_months)
    with zero show ?thesis
      by simp
  next
    case True
    from records_entries_part [OF True] obtain rows where
      rec: "records i = Some (Inr rows)" and
      rest: "length rows = nat (months i div 12)
           \<and> (\<forall>k < length rows.
                 tahun (rows ! k) = int k + 1
                 \<and> fv_annuity (of_int (input_P i)) (r_month i) ((int k + 1) * 12) (is_due i)
                     = Inr (future_value (rows ! k)))
           \<and> fv_annuity (of_int (input_P i)) (r_month i) (months i div 12 * 12) (is_due i)
               = Inr (future_value (last rows))"
      by blast
    show ?thesis
      unfolding rec option.case
      by (rule exI [of _ rows]) (rule conjI [OF refl rest])
  qed
qed

theorem progression_entries_witness:
  "1 \<le> months default_inputs \<and> months default_inputs \<le> 600
   \<and> (\<exists>vs. progress default_inputs = Inr vs \<and> length vs = 96)
   \<and> (\<exists>rows. records default_inputs = Some (Inr rows) \<and> length rows = 8)"
proof -
  have m: "months default_inputs = 96"
    by (simp add: months_def default_inputs_def)
  have h1: "1 \<le> months default_inputs" and h2: "months default_inputs \<le> 600"
    by (simp_all add: m)
  have "records default_inputs \<noteq> None"
    by (simp add: records_def years_def default_inputs_def)
  then obtain res where res: "records default_inputs = Some res"
    by blast
  from progression_entries [OF h1 h2]
  have "(\<exists>vs. progress default_inputs = Inr vs \<and> length vs = 96)
        \<and> (\<exists>rows. res = Inr rows \<and> length rows = 8)"
    unfolding res option.case m by auto
  with h1 h2 res show ?thesis
    by simp
qed

section \<open>Properties of the currency formatting\<close>

lemma digits_of_small: "n < 10 \<Longrightarrow> digits_of n = [''0123456789'' ! n]"
  by (simp add: digits_of.simps)

lemma digits_of_step:
  "10 \<le> n \<Longrightarrow> digits_of n = digits_of (n div 10) @ [''0123456789'' ! (n mod 10)]"
  by (subst digits_of.simps) simp

lemma round_half_even_of_int: "round_half_even (of_int k) = k"
  by (simp add: round_half_even_def)

lemma fmt_rp_int: "fmt_rp (py_int_obj k) = Inr (replace_comma (''Rp'' @ format_grouped k))"
  by (simp add: fmt_rp_def py_int_obj_def py_round_def round_half_even_of_int)

text \<open>
  Where \<^verbatim>\<open>float(x)\<close> raises ValueError or TypeError, \<open>fmt_rp\<close> returns \<^verbatim>\<open>str(x)\<close>.
\<close>

lemma fmt_rp_fallback:
  "float_result x = Inl e \<Longrightarrow> e = ValueError \<or> e = TypeError \<Longrightarrow> fmt_rp x = Inr (str_result x)"
  by (auto simp: fmt_rp_def)

text \<open>A finite number is always formatted.\<close>

lemma fmt_rp_finite:
  "float_result x = Inr (Fin v) \<Longrightarrow>
   fmt_rp x = Inr (replace_comma (''Rp'' @ format_grouped (round_half_even v)))"
  by (simp add: fmt_rp_def py_round_def)

lemma fmt_rp_inf_raises: "fmt_rp py_inf_obj = Inl OverflowError"
  by (simp add: fmt_rp_def py_inf_obj_def py_round_def)

lemma fmt_rp_none: "fmt_rp py_none_obj = Inr ''None''"
  by (simp add: fmt_rp_def py_none_obj_def)

text \<open>
  C4 (never raises) does not hold of the code: \<^verbatim>\<open>float("nan")\<close> succeeds, and
  \<^verbatim>\<open>round\<close> of NaN, called outside the \<^verbatim>\<open>try\<close>, raises ValueError.
\<close>

theorem fmt_rp_nan_raises: "fmt_rp (py_str_obj ''nan'') = Inl ValueError"
  by code_simp

text \<open>
  C9. \<open>fmt_rp\<close> of the int 1234567 is the currency prefix \<^verbatim>\<open>Rp\<close> followed by the digits
  in groups of three separated by dots, \<^verbatim>\<open>1.234.567\<close>; \<open>fmt_rp\<close> of the string
  \<^verbatim>\<open>abc\<close> is \<^verbatim>\<open>abc\<close>.
\<close>

theorem fmt_rp_examples:
  "fmt_rp (py_int_obj 1234567) = Inr (''Rp'' @ ''1.234.567'')
   \<and> fmt_rp (py_str_obj ''abc'') = Inr ''abc''"
proof
  show "fmt_rp (py_int_obj 1234567) = Inr (''Rp'' @ ''1.234.567'')"
    by (simp add: fmt_rp_int format_grouped_def replace_comma_def digits_of_small digits_of_step)
  show "fmt_rp (py_str_obj ''abc'') = Inr ''abc''"
    by (simp add: fmt_rp_def py_str_obj_def str_to_float_def strip_def is_space_def lower_def
        parse_unsigned_def parse_decimal_def is_digit_def)
qed

section \<open>Properties of the annuity formulas in binary64 arithmetic\<close>

subsection \<open>Rounding to binary64\<close>

lemma expo_iff: "x \<noteq> 0 \<Longrightarrow> expo x = e \<longleftrightarrow> 2 powi e \<le> \<bar>x\<bar> \<and> \<bar>x\<bar> < 2 powi (e + 1)"
proof -
  assume "x \<noteq> 0"
  then have pos: "0 < \<bar>x\<bar>" by simp
  have "\<lfloor>log 2 \<bar>x\<bar>\<rfloor> = e \<longleftrightarrow> 2 powr (of_int e) \<le> \<bar>x\<bar> \<and> \<bar>x\<bar> < 2 powr (of_int e + 1)"
    using pos by (simp add: floor_log_eq_powr_iff)
  moreover have "(2::real) powr (of_int e) = 2 powi e"
    by (simp add: powr_real_of_int')
  moreover have "(2::real) powr (of_int e + 1) = 2 powi (e + 1)"
    using powr_real_of_int' [of "2::real" "e + 1"] by simp
  ultimately show ?thesis by (simp add: expo_def)
qed

lemma expo_bounds:
  assumes "x \<noteq> 0"
  shows "2 powi expo x \<le> \<bar>x\<bar>" and "\<bar>x\<bar> < 2 powi (expo x + 1)"
  using expo_iff [OF assms, of "expo x"] by simp_all

lemma expo_eqI: "2 powi e \<le> \<bar>x\<bar> \<Longrightarrow> \<bar>x\<bar> < 2 powi (e + 1) \<Longrightarrow> expo x = e"
proof -
  assume a: "2 powi e \<le> \<bar>x\<bar>" and b: "\<bar>x\<bar> < 2 powi (e + 1)"
  have "(0::real) < 2 powi e" by simp
  with a have "0 < \<bar>x\<bar>" by linarith
  then have "x \<noteq> 0" by simp
  with a b show ?thesis by (simp add: expo_iff)
qed

lemma round_half_even_err: "\<bar>of_int (round_half_even y) - y\<bar> \<le> 1/2"
  unfolding round_half_even_def Let_def by (auto simp: abs_le_iff)

lemma round_half_even_mono: "x \<le> y \<Longrightarrow> round_half_even x \<le> round_half_even y"
proof -
  assume xy: "x \<le> y"
  then have fl: "\<lfloor>x\<rfloor> \<le> \<lfloor>y\<rfloor>" by (rule floor_mono)
  show ?thesis
  proof (cases "\<lfloor>x\<rfloor> = \<lfloor>y\<rfloor>")
    case True
    with xy show ?thesis
      unfolding round_half_even_def Let_def by auto
  next
    case False
    with fl have "\<lfloor>x\<rfloor> + 1 \<le> \<lfloor>y\<rfloor>" by simp
    moreover have "round_half_even x \<le> \<lfloor>x\<rfloor> + 1"
      unfolding round_half_even_def Let_def by auto
    moreover have "\<lfloor>y\<rfloor> \<le> round_half_even y"
      unfolding round_half_even_def Let_def by auto
    ultimately show ?thesis by linarith
  qed
qed


lemma b64_eval:
  assumes "2 powi e \<le> \<bar>x\<bar>" and "\<bar>x\<bar> < 2 powi (e + 1)"
  shows "b64 x = of_int (round_half_even (x / 2 powi (e - 52))) * 2 powi (e - 52)"
proof -
  have e: "expo x = e" using assms by (rule expo_eqI)
  have "(0::real) < 2 powi e" by simp
  with assms(1) have "0 < \<bar>x\<bar>" by linarith
  then have "x \<noteq> 0" by simp
  then show ?thesis by (simp add: b64_def e Let_def)
qed

lemma b64_zero: "b64 0 = 0"
  by (simp add: b64_def)

lemma b64_rel_err: "\<bar>b64 x - x\<bar> \<le> \<bar>x\<bar> / 2 ^ 53"
proof (cases "x = 0")
  case True
  then show ?thesis by (simp add: b64_def)
next
  case False
  define q :: real where "q = 2 powi (expo x - 52)"
  have qpos: "0 < q" by (simp add: q_def)
  have "b64 x - x = (of_int (round_half_even (x / q)) - x / q) * q"
    using False qpos by (simp add: b64_def q_def[symmetric] field_simps)
  then have "\<bar>b64 x - x\<bar> = \<bar>of_int (round_half_even (x / q)) - x / q\<bar> * q"
    using qpos by (simp add: abs_mult)
  also have "\<dots> \<le> 1/2 * q"
    using round_half_even_err [of "x / q"] qpos by (intro mult_right_mono) simp_all
  also have "1/2 * q = 2 powi expo x / 2 ^ 53"
    by (simp add: q_def power_int_diff)
  also have "\<dots> \<le> \<bar>x\<bar> / 2 ^ 53"
    using expo_bounds(1) [OF False] by (simp add: divide_right_mono)
  finally show ?thesis .
qed


lemma b64_scaled:
  assumes "x \<noteq> 0"
  shows "b64 x = of_int (round_half_even (x / 2 powi (expo x - 52))) * 2 powi (expo x - 52)"
  using assms by (simp add: b64_def Let_def)

lemma scaled_bounds:
  assumes "0 < x"
  shows "2 ^ 52 \<le> x / 2 powi (expo x - 52)" and "x / 2 powi (expo x - 52) < 2 ^ 53"
proof -
  have x0: "x \<noteq> 0" using assms by simp
  have q: "(2::real) powi (expo x - 52) = 2 powi expo x / 2 ^ 52"
    by (simp add: power_int_diff)
  have up: "(2::real) powi (expo x + 1) = 2 powi expo x * 2"
    by (simp add: power_int_add)
  have pos: "(0::real) < 2 powi expo x" by simp
  have lo: "2 powi expo x \<le> x" using expo_bounds(1) [OF x0] assms by simp
  have hi: "x < 2 powi expo x * 2" using expo_bounds(2) [OF x0] assms up by simp
  show "2 ^ 52 \<le> x / 2 powi (expo x - 52)"
    using lo pos by (simp add: q field_simps)
  show "x / 2 powi (expo x - 52) < 2 ^ 53"
    using hi pos by (simp add: q field_simps)
qed

lemma b64_lower:
  assumes "0 < x"
  shows "2 powi expo x \<le> b64 x"
proof -
  have "round_half_even (of_int (2 ^ 52)) \<le> round_half_even (x / 2 powi (expo x - 52))"
    using scaled_bounds(1) [OF assms] by (intro round_half_even_mono) simp
  then have "(2::int) ^ 52 \<le> round_half_even (x / 2 powi (expo x - 52))"
    by (simp only: round_half_even_of_int)
  then have "(2::real) ^ 52 \<le> of_int (round_half_even (x / 2 powi (expo x - 52)))"
    by (metis of_int_le_iff of_int_numeral of_int_power)
  then have "2 ^ 52 * 2 powi (expo x - 52) \<le> b64 x"
    using assms by (simp add: b64_scaled mult_right_mono)
  moreover have "(2::real) ^ 52 * 2 powi (expo x - 52) = 2 powi expo x"
    by (simp add: power_int_diff)
  ultimately show ?thesis by simp
qed

lemma b64_upper:
  assumes "0 < x"
  shows "b64 x \<le> 2 powi (expo x + 1)"
proof -
  have "round_half_even (x / 2 powi (expo x - 52)) \<le> round_half_even (of_int (2 ^ 53))"
    using scaled_bounds(2) [OF assms] by (intro round_half_even_mono) simp
  then have "round_half_even (x / 2 powi (expo x - 52)) \<le> (2::int) ^ 53"
    by (simp only: round_half_even_of_int)
  then have "of_int (round_half_even (x / 2 powi (expo x - 52))) \<le> (2::real) ^ 53"
    by (metis of_int_le_iff of_int_numeral of_int_power)
  then have "b64 x \<le> 2 ^ 53 * 2 powi (expo x - 52)"
    using assms by (simp add: b64_scaled mult_right_mono)
  moreover have "(2::real) ^ 53 * 2 powi (expo x - 52) = 2 powi (expo x + 1)"
    by (simp add: power_int_diff power_int_add)
  ultimately show ?thesis by simp
qed

lemma b64_nonneg: "0 \<le> x \<Longrightarrow> 0 \<le> b64 x"
proof (cases "x = 0")
  case True
  then show ?thesis by (simp add: b64_zero)
next
  case False
  assume "0 \<le> x"
  with False have "0 < x" by simp
  from b64_lower [OF this] have "2 powi expo x \<le> b64 x" .
  moreover have "(0::real) < 2 powi expo x" by simp
  ultimately show ?thesis by linarith
qed

lemma expo_mono:
  assumes "0 < x" and "x \<le> y"
  shows "expo x \<le> expo y"
proof -
  have "log 2 x \<le> log 2 y" using assms by simp
  then show ?thesis
    using assms by (simp add: expo_def floor_mono)
qed

lemma b64_mono:
  assumes "0 \<le> x" and "x \<le> y"
  shows "b64 x \<le> b64 y"
proof (cases "x = 0")
  case True
  with assms show ?thesis by (simp add: b64_zero b64_nonneg)
next
  case False
  with assms have x: "0 < x" and y: "0 < y" by simp_all
  have le: "expo x \<le> expo y" using x assms(2) by (rule expo_mono)
  show ?thesis
  proof (cases "expo x = expo y")
    case True
    have "x / 2 powi (expo y - 52) \<le> y / 2 powi (expo y - 52)"
      using assms(2) by (simp add: divide_right_mono)
    then have "round_half_even (x / 2 powi (expo y - 52))
        \<le> round_half_even (y / 2 powi (expo y - 52))"
      by (rule round_half_even_mono)
    then have "of_int (round_half_even (x / 2 powi (expo y - 52))) * 2 powi (expo y - 52)
        \<le> of_int (round_half_even (y / 2 powi (expo y - 52))) * (2::real) powi (expo y - 52)"
      by (intro mult_right_mono) simp_all
    then show ?thesis
      using x y True by (simp add: b64_scaled)
  next
    case False
    with le have "expo x + 1 \<le> expo y" by simp
    then have "(2::real) powi (expo x + 1) \<le> 2 powi expo y"
      by (intro power_int_increasing) simp_all
    with b64_upper [OF x] b64_lower [OF y] show ?thesis by linarith
  qed
qed


lemma b64_grid:
  assumes "2 powi e \<le> \<bar>(of_int k :: real) * 2 powi (e - 52)\<bar>"
    and "\<bar>(of_int k :: real) * 2 powi (e - 52)\<bar> < 2 powi (e + 1)"
  shows "b64 (of_int k * 2 powi (e - 52)) = of_int k * 2 powi (e - 52)"
proof -
  have "(of_int k :: real) * 2 powi (e - 52) / 2 powi (e - 52) = of_int k"
    by simp
  then show ?thesis
    using b64_eval [OF assms] by (simp only: round_half_even_of_int)
qed

lemma b64_pow2: "b64 (2 powi e) = 2 powi e"
proof -
  have eq: "(2::real) powi e = of_int (2 ^ 52) * 2 powi (e - 52)"
    by (simp add: power_int_diff)
  have "(2::real) powi e < 2 powi (e + 1)"
    by (intro power_int_strict_increasing) simp_all
  then have "b64 (of_int (2 ^ 52) * 2 powi (e - 52)) = of_int (2 ^ 52) * 2 powi (e - 52)"
    by (intro b64_grid) (simp_all only: eq [symmetric] abs_of_pos zero_less_power_int
        zero_less_numeral order_refl)
  then show ?thesis by (simp only: eq [symmetric])
qed

lemma b64_idem:
  assumes "0 \<le> x"
  shows "b64 (b64 x) = b64 x"
proof (cases "x = 0")
  case True
  then show ?thesis by (simp add: b64_zero)
next
  case False
  with assms have x: "0 < x" by simp
  define k where "k = round_half_even (x / 2 powi (expo x - 52))"
  have v: "b64 x = of_int k * 2 powi (expo x - 52)"
    using x by (simp add: b64_scaled k_def)
  have lo: "2 powi expo x \<le> b64 x" using x by (rule b64_lower)
  have hi: "b64 x \<le> 2 powi (expo x + 1)" using x by (rule b64_upper)
  have pos: "0 < b64 x"
    using lo zero_less_power_int [of "2::real" "expo x"] by linarith
  show ?thesis
  proof (cases "b64 x = 2 powi (expo x + 1)")
    case True
    then show ?thesis by (simp only: b64_pow2)
  next
    case False
    with hi have "b64 x < 2 powi (expo x + 1)" by simp
    then have "b64 (of_int k * 2 powi (expo x - 52)) = of_int k * 2 powi (expo x - 52)"
      using lo pos by (intro b64_grid) (simp_all only: v [symmetric] abs_of_pos)
    then show ?thesis by (simp only: v [symmetric])
  qed
qed

lemma expo_one: "expo 1 = 0"
  by (rule expo_eqI) simp_all

lemma b64_of_int:
  assumes "0 \<le> i" and "i \<le> 2 ^ 53"
  shows "b64 (of_int i) = of_int i"
proof (cases "i = 0 \<or> i = 2 ^ 53")
  case True
  then show ?thesis
  proof
    assume "i = 0"
    then show ?thesis by (simp add: b64_zero)
  next
    assume "i = 2 ^ 53"
    then have "(of_int i :: real) = 2 powi 53" by simp
    then show ?thesis by (simp only: b64_pow2)
  qed
next
  case False
  with assms have i: "1 \<le> i" and lt: "i < 2 ^ 53" by simp_all
  define x :: real where "x = of_int i"
  have x1: "1 \<le> x" using i by (simp add: x_def)
  then have x0: "x \<noteq> 0" and xpos: "0 < x" by simp_all
  have xlt: "x < 2 powi 53"
  proof -
    have "(of_int i :: real) < of_int (2 ^ 53)" using lt by (simp only: of_int_less_iff)
    then show ?thesis by (simp add: x_def)
  qed
  define e where "e = expo x"
  have e0: "0 \<le> e"
    using expo_mono [of 1 x] x1 by (simp add: e_def expo_one)
  have lo: "2 powi e \<le> x" using expo_bounds(1) [OF x0] xpos by (simp add: e_def)
  have hi: "x < 2 powi (e + 1)" using expo_bounds(2) [OF x0] xpos by (simp add: e_def)
  have "(2::real) powi e < 2 powi 53" using lo xlt by linarith
  then have "e < 53"
    by (rule power_int_le_imp_less_exp [rotated]) simp_all
  then have e52: "e \<le> 52" by simp
  define k where "k = i * 2 ^ nat (52 - e)"
  have "(2::real) powi (e - 52) = inverse (2 ^ nat (52 - e))"
    using e52 by (simp add: power_int_def power_one_over inverse_eq_divide)
  then have kx: "of_int k * 2 powi (e - 52) = x"
    by (simp add: k_def x_def)
  have "b64 (of_int k * 2 powi (e - 52)) = of_int k * 2 powi (e - 52)"
    using lo hi xpos by (intro b64_grid) (simp_all only: kx abs_of_pos)
  then show ?thesis by (simp only: kx) (simp add: x_def)
qed

lemma b64_one: "b64 1 = 1"
  using b64_of_int [of 1] by simp

subsection \<open>Evaluation at concrete inputs\<close>

lemma b64_at:
  assumes "2 powi e \<le> \<bar>x\<bar>" and "\<bar>x\<bar> < 2 powi (e + 1)"
    and "round_half_even (x / 2 powi (e - 52)) = k"
  shows "b64 x = of_int k * 2 powi (e - 52)"
  using b64_eval [OF assms(1,2)] assms(3) by simp

lemma rhe_eval:
  assumes "\<lfloor>y\<rfloor> = f" and "y - of_int f < 1/2 \<and> k = f \<or> 1/2 < y - of_int f \<and> k = f + 1"
  shows "round_half_even y = k"
  using assms unfolding round_half_even_def Let_def by auto

lemma big_round: "b64 27021597764222973 = 27021597764222972"
proof -
  have "round_half_even (27021597764222973 / 2 powi (54 - 52)) = 6755399441055743"
    by (rule rhe_eval [where f = 6755399441055743]) simp_all
  then have "b64 27021597764222973 = of_int 6755399441055743 * 2 powi (54 - 52)"
    by (intro b64_at) simp_all
  then show ?thesis by simp
qed


lemma b64_step:
  assumes "2 powi e \<le> \<bar>x\<bar>" and "\<bar>x\<bar> < 2 powi (e + 1)"
    and "\<lfloor>x / 2 powi (e - 52)\<rfloor> = f"
    and "x / 2 powi (e - 52) - of_int f < 1/2 \<and> k = f
         \<or> 1/2 < x / 2 powi (e - 52) - of_int f \<and> k = f + 1"
  shows "b64 x = of_int k * 2 powi (e - 52)"
  using assms(1,2) rhe_eval [OF assms(3,4)] by (rule b64_at)

lemma ex_s: "b64 (1 + 4803839602528529 / 2 ^ 60) = 4522364625817873 / 2 ^ 52"
  using b64_step [of 0 "1 + 4803839602528529 / 2 ^ 60" 4522364625817873 4522364625817873]
  by (simp add: power_int_minus)

lemma ex_d: "b64 (4522364625817873 / 2 ^ 52 - 1) = 18764998447377 / 2 ^ 52"
  using b64_step [of "- 8" "4522364625817873 / 2 ^ 52 - 1" 4803839602528512 4803839602528512]
  by (simp add: power_int_minus)

lemma ex_m: "b64 (400000 * (18764998447377 / 2 ^ 52)) = 7330077518506641 / 2 ^ 42"
  using b64_step [of 10 "400000 * (18764998447377 / 2 ^ 52)" 7330077518506640 7330077518506641]
  by (simp add: power_int_minus)

lemma ex_base:
  "b64 (7330077518506641 / 2 ^ 42 / (4803839602528529 / 2 ^ 60)) = 400000 - 3 / 2 ^ 31"
  using b64_step [of 18 "7330077518506641 / 2 ^ 42 / (4803839602528529 / 2 ^ 60)"
      6871947673599976 6871947673599976]
  by (simp add: power_int_minus)

subsection \<open>Composition of rounding errors\<close>

lemma u53_pos: "0 < u53"
  by (simp add: u53_def)

lemma b64_err_u53: "\<bar>b64 x - x\<bar> \<le> \<bar>x\<bar> * u53"
  using b64_rel_err [of x] by (simp add: u53_def)

lemma close_refl: "close_to 1 t t"
  by (simp add: close_to_def)

lemma close_b64:
  assumes "0 \<le> t" and "1 \<le> g" and "close_to g t x"
  shows "close_to (g * (1 + u53)) t (b64 x)"
proof -
  have xt: "\<bar>x - t\<bar> \<le> t * (g - 1)" using assms(3) by (simp add: close_to_def)
  have "\<bar>x\<bar> \<le> \<bar>x - t\<bar> + \<bar>t\<bar>" by linarith
  with xt assms(1) have "\<bar>x\<bar> \<le> t * g" by (simp add: algebra_simps)
  then have "\<bar>x\<bar> * u53 \<le> t * g * u53"
    using u53_pos by (simp add: mult_right_mono)
  with b64_err_u53 [of x] have "\<bar>b64 x - x\<bar> \<le> t * g * u53" by linarith
  moreover have "\<bar>b64 x - t\<bar> \<le> \<bar>b64 x - x\<bar> + \<bar>x - t\<bar>" by linarith
  ultimately have "\<bar>b64 x - t\<bar> \<le> t * g * u53 + t * (g - 1)"
    using xt by linarith
  then show ?thesis by (simp add: close_to_def algebra_simps)
qed

lemma close_mult:
  assumes "0 \<le> t1" and "0 \<le> t2" and "1 \<le> g1"
    and "close_to g1 t1 x" and "close_to g2 t2 y"
  shows "close_to (g1 * g2) (t1 * t2) (x * y)"
proof -
  have x: "\<bar>x - t1\<bar> \<le> t1 * (g1 - 1)" using assms(4) by (simp add: close_to_def)
  have y: "\<bar>y - t2\<bar> \<le> t2 * (g2 - 1)" using assms(5) by (simp add: close_to_def)
  have "\<bar>x\<bar> \<le> \<bar>x - t1\<bar> + \<bar>t1\<bar>" by linarith
  with x assms(1) have xb: "\<bar>x\<bar> \<le> t1 * g1" by (simp add: algebra_simps)
  have nn: "0 \<le> t2 * (g2 - 1)" using y by linarith
  have "x * y - t1 * t2 = x * (y - t2) + t2 * (x - t1)" by (simp add: algebra_simps)
  then have "\<bar>x * y - t1 * t2\<bar> \<le> \<bar>x\<bar> * \<bar>y - t2\<bar> + t2 * \<bar>x - t1\<bar>"
    using assms(2) by (metis abs_mult abs_of_nonneg abs_triangle_ineq)
  also have "\<bar>x\<bar> * \<bar>y - t2\<bar> \<le> (t1 * g1) * (t2 * (g2 - 1))"
    using xb y nn by (intro mult_mono) simp_all
  also have "t2 * \<bar>x - t1\<bar> \<le> t2 * (t1 * (g1 - 1))"
    using x assms(2) by (rule mult_left_mono)
  finally have "\<bar>x * y - t1 * t2\<bar> \<le> (t1 * g1) * (t2 * (g2 - 1)) + t2 * (t1 * (g1 - 1))"
    by simp
  then show ?thesis by (simp add: close_to_def algebra_simps)
qed

lemma close_div:
  assumes "0 < r" and "close_to g t x"
  shows "close_to g (t / r) (x / r)"
proof -
  have "\<bar>x - t\<bar> \<le> t * (g - 1)" using assms(2) by (simp add: close_to_def)
  then have "\<bar>x - t\<bar> / r \<le> t * (g - 1) / r"
    using assms(1) by (simp add: divide_right_mono)
  moreover have "\<bar>x / r - t / r\<bar> = \<bar>x - t\<bar> / r"
    using assms(1) by (simp add: diff_divide_distrib [symmetric])
  ultimately show ?thesis by (simp add: close_to_def)
qed


lemma ge1_mult: "1 \<le> a \<Longrightarrow> 1 \<le> b \<Longrightarrow> 1 \<le> a * (b::real)"
  using mult_mono [of 1 a 1 b] by simp

lemma to_float_int: "0 \<le> i \<Longrightarrow> i \<le> 2 ^ 53 \<Longrightarrow> to_float (PyInt i) = of_int i"
  by (simp add: to_float_def b64_of_int)

lemma b64_ge_one: "0 \<le> r \<Longrightarrow> 1 \<le> b64 (1 + r)"
  using b64_mono [of 1 "1 + r"] by (simp add: b64_one)

lemma ex_p: "pow_rn (4522364625817873 / 2 ^ 52) 1 = 4522364625817873 / 2 ^ 52"
proof -
  have "b64 (b64 (1 + 4803839602528529 / 2 ^ 60)) = b64 (1 + 4803839602528529 / 2 ^ 60)"
    by (rule b64_idem) simp
  then have "b64 (4522364625817873 / 2 ^ 52) = 4522364625817873 / 2 ^ 52"
    unfolding ex_s .
  then show ?thesis
    by (simp only: pow_rn_def power_int_1_right)
qed

lemma ordinary_b64_steps:
  assumes "r \<noteq> 0" and "b64 (1 + r) = s" and "s \<noteq> 0" and "pw s n = p"
    and "b64 (p - 1) = d" and "to_float P = x" and "b64 (x * d) = m" and "b64 (m / r) = v"
  shows "fv_annuity_ordinary_b64 pw P r n = Inr (PyFloat v)"
  using assms by (simp add: fv_annuity_ordinary_b64_def Let_def)

lemma pow_rn_ge_one:
  assumes "0 \<le> r" and "0 \<le> n"
  shows "1 \<le> pow_rn (b64 (1 + r)) n"
proof -
  have "1 \<le> b64 (1 + r)" using assms(1) by (rule b64_ge_one)
  then have "1 \<le> b64 (1 + r) powi n"
    using assms(2) by (simp add: one_le_power_int)
  then have "b64 1 \<le> b64 (b64 (1 + r) powi n)"
    by (intro b64_mono) simp_all
  then show ?thesis by (simp add: pow_rn_def b64_one)
qed

lemma pow_rn_one: "0 \<le> r \<Longrightarrow> pow_rn (b64 (1 + r)) 1 = b64 (1 + r)"
  by (simp add: pow_rn_def b64_idem)

subsection \<open>Annuity due against ordinary annuity\<close>

text \<open>
  The deposit field admits the int \<open>P = 2\<^sup>5\<^sup>3 - 1\<close>. With the rate \<open>r = 0.0\<close> and
  \<open>n = 3\<close> the ordinary result is the int \<open>P * n = 27021597764222973\<close>, exactly. The due
  result is \<^verbatim>\<open>base * (1 + r)\<close>, a float product: the int is converted to the nearest
  binary64 number, \<open>27021597764222972\<close>, which is less. So the due result is below the
  ordinary result.
\<close>

theorem fv_annuity_b64_due_below_ordinary:
  "\<not> result_le (fv_annuity_b64 pow_rn (PyInt 9007199254740991) 0 3 False)
                 (fv_annuity_b64 pow_rn (PyInt 9007199254740991) 0 3 True)"
proof -
  have "b64 (b64 27021597764222973) = b64 27021597764222973"
    by (rule b64_idem) simp
  then have "b64 27021597764222972 = 27021597764222972"
    by (simp only: big_round)
  then show ?thesis
    by (simp add: result_le_def fv_annuity_b64_def fv_annuity_ordinary_b64_def num_mul_def
        to_float_def num_val_def big_round b64_one)
qed

text \<open>
  Claim C5, amended. For an int deposit \<open>0 \<le> P \<le> 2\<^sup>5\<^sup>3\<close>, a rate \<open>0 \<le> r \<le> 0.5\<close> and
  \<open>0 \<le> n \<le> 600\<close> periods (the inputs of the page), the annuity-due result is at least
  the ordinary result, provided that with \<open>r = 0\<close> the product \<open>P * n\<close> is at most
  \<open>2\<^sup>5\<^sup>3\<close> (so that it is a binary64 number), and that the power \<^verbatim>\<open>(1 + r) ** n\<close>
  returned by the C library is at least 1 (as it is for the correctly rounded power,
  lemma \<open>pow_rn_ge_one\<close>).
\<close>

theorem fv_annuity_b64_due_dominates:
  assumes "0 \<le> i" and "i \<le> 2 ^ 53" and "0 \<le> r" and "r \<le> 1/2"
    and "0 \<le> n" and "n \<le> 600"
    and "1 \<le> pw (b64 (1 + r)) n"
    and "r = 0 \<longrightarrow> i * n \<le> 2 ^ 53"
  shows "result_le (fv_annuity_b64 pw (PyInt i) r n False)
                   (fv_annuity_b64 pw (PyInt i) r n True)"
proof (cases "r = 0")
  case True
  have "0 \<le> i * n" using assms(1,5) by simp
  moreover have "i * n \<le> 2 ^ 53" using True assms(8) by simp
  ultimately have "b64 (of_int (i * n)) = of_int (i * n)" by (rule b64_of_int)
  then show ?thesis
    using True
    by (simp add: result_le_def fv_annuity_b64_def fv_annuity_ordinary_b64_def num_mul_def
        to_float_def num_val_def b64_one)
next
  case False
  then have r: "0 < r" using assms(3) by simp
  define s where "s = b64 (1 + r)"
  define d where "d = b64 (pw s n - 1)"
  define m where "m = b64 (of_int i * d)"
  define v where "v = b64 (m / r)"
  have s1: "1 \<le> s" using assms(3) by (simp add: s_def b64_ge_one)
  have "0 \<le> pw s n - 1" using assms(7) by (simp add: s_def)
  then have d0: "0 \<le> d" unfolding d_def by (rule b64_nonneg)
  have "0 \<le> of_int i * d" using assms(1) d0 by simp
  then have m0: "0 \<le> m" unfolding m_def by (rule b64_nonneg)
  have mr: "0 \<le> m / r" using m0 r by simp
  then have v0: "0 \<le> v" unfolding v_def by (rule b64_nonneg)
  have "v * 1 \<le> v * s" using s1 v0 by (rule mult_left_mono)
  then have "b64 v \<le> b64 (v * s)" using v0 by (intro b64_mono) simp_all
  moreover have "b64 v = v" unfolding v_def using mr by (rule b64_idem)
  ultimately have le: "v \<le> b64 (v * s)" by simp
  have s0: "s \<noteq> 0" using s1 by simp
  have ord: "fv_annuity_ordinary_b64 pw (PyInt i) r n = Inr (PyFloat v)"
    using False assms(1,2) s0
    by (simp add: fv_annuity_ordinary_b64_def Let_def to_float_int s_def [symmetric]
        d_def [symmetric] m_def [symmetric] v_def [symmetric])
  show ?thesis
    using le
    by (simp add: result_le_def fv_annuity_b64_def ord to_float_def num_val_def
        s_def [symmetric])
qed

theorem fv_annuity_b64_due_dominates_witness:
  "result_le (fv_annuity_b64 pow_rn (PyInt 400000) (4803839602528529 / 2 ^ 60) 12 False)
             (fv_annuity_b64 pow_rn (PyInt 400000) (4803839602528529 / 2 ^ 60) 12 True)
   \<and> result_le (fv_annuity_b64 pow_rn (PyInt 400000) 0 12 False)
               (fv_annuity_b64 pow_rn (PyInt 400000) 0 12 True)"
proof
  have "1 \<le> pow_rn (b64 (1 + 4803839602528529 / 2 ^ 60)) 12"
    by (rule pow_rn_ge_one) simp_all
  then show "result_le
       (fv_annuity_b64 pow_rn (PyInt 400000) (4803839602528529 / 2 ^ 60) 12 False)
       (fv_annuity_b64 pow_rn (PyInt 400000) (4803839602528529 / 2 ^ 60) 12 True)"
    using fv_annuity_b64_due_dominates [of 400000 "4803839602528529 / 2 ^ 60" 12 pow_rn]
    by simp
  have "1 \<le> pow_rn (b64 (1 + 0)) 12"
    by (rule pow_rn_ge_one) simp_all
  then show "result_le (fv_annuity_b64 pow_rn (PyInt 400000) 0 12 False)
                       (fv_annuity_b64 pow_rn (PyInt 400000) 0 12 True)"
    using fv_annuity_b64_due_dominates [of 400000 0 12 pow_rn] by simp
qed

subsection \<open>One period\<close>

text \<open>
  At the default inputs of the page (\<open>P = 400000\<close>, 5 percent per year, so
  \<open>r = 0.05 / 12\<close>, which is the binary64 number \<open>4803839602528529 / 2\<^sup>6\<^sup>0\<close>) and
  \<open>n = 1\<close>, the ordinary result is \<open>400000 - 3 / 2\<^sup>3\<^sup>1\<close> (printed
  \<^verbatim>\<open>399999.9999999986\<close>), not \<open>P\<close>: \<^verbatim>\<open>1 + r\<close> is rounded, and \<^verbatim>\<open>(1 + r) - 1\<close> is not
  \<open>r\<close>.
\<close>

theorem fv_annuity_ordinary_b64_one_period_inexact:
  "fv_annuity_ordinary_b64 pow_rn (PyInt 400000) (4803839602528529 / 2 ^ 60) 1
     = Inr (PyFloat (400000 - 3 / 2 ^ 31))
   \<and> num_val (PyFloat (400000 - 3 / 2 ^ 31)) < num_val (PyInt 400000)"
proof
  have P: "to_float (PyInt 400000) = 400000"
    using to_float_int [of 400000] by simp
  show "fv_annuity_ordinary_b64 pow_rn (PyInt 400000) (4803839602528529 / 2 ^ 60) 1
     = Inr (PyFloat (400000 - 3 / 2 ^ 31))"
    by (rule ordinary_b64_steps [where pw = pow_rn, OF _ ex_s _ ex_p ex_d P ex_m ex_base]) simp_all
  show "num_val (PyFloat (400000 - 3 / 2 ^ 31)) < num_val (PyInt 400000)"
    by (simp add: num_val_def)
qed

text \<open>
  Claim C6, amended. Let \<open>n = 1\<close>, the deposit an int \<open>0 \<le> P \<le> 2\<^sup>5\<^sup>3\<close> and the rate
  \<open>0 \<le> r \<le> 0.5\<close>, and let the C library return \<open>x\<close> for \<^verbatim>\<open>x ** 1\<close>. With \<open>r = 0\<close> the
  ordinary result is the int \<open>P\<close> and the due result is the float \<open>P\<close>, exactly. With
  \<open>r > 0\<close> both calls return a float; the ordinary result is \<open>P\<close> up to the relative
  error \<open>rounding_factor r 3 - 1\<close>, and the due result is \<open>P * (1 + r)\<close> up to the
  relative error \<open>rounding_factor r 5 - 1\<close>, where
  \<open>rounding_factor r k = (1 + u (1 + r) / r) (1 + u)\<^sup>k\<close> and \<open>u = 2\<^sup>-\<^sup>5\<^sup>3\<close>.
\<close>

theorem fv_annuity_b64_one_period:
  assumes "0 \<le> i" and "i \<le> 2 ^ 53" and "0 \<le> r" and "r \<le> 1/2"
    and "pw (b64 (1 + r)) 1 = b64 (1 + r)"
  shows "(r = 0 \<longrightarrow>
            fv_annuity_ordinary_b64 pw (PyInt i) r 1 = Inr (PyInt i)
            \<and> fv_annuity_b64 pw (PyInt i) r 1 True = Inr (PyFloat (of_int i)))
         \<and> (0 < r \<longrightarrow>
              (\<exists>v w. fv_annuity_ordinary_b64 pw (PyInt i) r 1 = Inr (PyFloat v)
                 \<and> fv_annuity_b64 pw (PyInt i) r 1 True = Inr (PyFloat w)
                 \<and> \<bar>v - of_int i\<bar> \<le> of_int i * (rounding_factor r 3 - 1)
                 \<and> \<bar>w - of_int i * (1 + r)\<bar>
                     \<le> of_int i * (1 + r) * (rounding_factor r 5 - 1)))"
proof (intro conjI impI)
  assume "r = 0"
  then show "fv_annuity_ordinary_b64 pw (PyInt i) r 1 = Inr (PyInt i)"
    by (simp add: fv_annuity_ordinary_b64_def num_mul_def)
next
  assume "r = 0"
  then show "fv_annuity_b64 pw (PyInt i) r 1 True = Inr (PyFloat (of_int i))"
    using assms(1,2)
    by (simp add: fv_annuity_b64_def fv_annuity_ordinary_b64_def num_mul_def to_float_int
        b64_one b64_of_int)
next
  assume r: "0 < r"
  define s where "s = b64 (1 + r)"
  define d where "d = b64 (s - 1)"
  define m where "m = b64 (of_int i * d)"
  define v where "v = b64 (m / r)"
  define w where "w = b64 (v * s)"
  define B where "B = 1 + u53 * (1 + r) / r"
  have i0: "(0::real) \<le> of_int i" using assms(1) by simp
  have B1: "1 \<le> B" using r u53_pos by (simp add: B_def)
  have u1: "1 \<le> 1 + u53" using u53_pos by simp
  have s1: "1 \<le> s" using r by (simp add: s_def b64_ge_one)
  have "close_to (1 * (1 + u53)) (1 + r) s"
    unfolding s_def using r by (intro close_b64 close_refl) simp_all
  then have s_close: "close_to (1 + u53) (1 + r) s" by simp
  then have "\<bar>s - (1 + r)\<bar> \<le> (1 + r) * u53" by (simp add: close_to_def)
  moreover have "r * (B - 1) = (1 + r) * u53"
    using r by (simp add: B_def)
  moreover have "(s - 1) - r = s - (1 + r)" by simp
  ultimately have "\<bar>(s - 1) - r\<bar> \<le> r * (B - 1)"
    by (simp only:)
  then have "close_to B r (s - 1)" by (simp add: close_to_def)
  then have d_close: "close_to (B * (1 + u53)) r d"
    unfolding d_def using r B1 by (intro close_b64) simp_all
  have B2: "1 \<le> B * (1 + u53)" using B1 u1 by (simp add: ge1_mult)
  have "close_to (1 * (B * (1 + u53))) (of_int i * r) (of_int i * d)"
    using i0 r d_close by (intro close_mult close_refl) simp_all
  then have "close_to (B * (1 + u53) * (1 + u53)) (of_int i * r) m"
    unfolding m_def using i0 r B2 by (intro close_b64) simp_all
  then have "close_to (B * (1 + u53) * (1 + u53)) (of_int i * r / r) (m / r)"
    using r by (intro close_div)
  then have mr: "close_to (B * (1 + u53) * (1 + u53)) (of_int i) (m / r)"
    using r by simp
  have B3: "1 \<le> B * (1 + u53) * (1 + u53)" using B2 u1 by (simp add: ge1_mult)
  have v_close: "close_to (B * (1 + u53) * (1 + u53) * (1 + u53)) (of_int i) v"
    unfolding v_def using i0 B3 mr by (intro close_b64) simp_all
  have B4: "1 \<le> B * (1 + u53) * (1 + u53) * (1 + u53)"
    using B3 u1 by (simp add: ge1_mult)
  have "close_to (B * (1 + u53) * (1 + u53) * (1 + u53) * (1 + u53))
          (of_int i * (1 + r)) (v * s)"
    using i0 r B4 v_close s_close by (intro close_mult) simp_all
  moreover have "1 \<le> B * (1 + u53) * (1 + u53) * (1 + u53) * (1 + u53)"
    using B4 u1 by (simp add: ge1_mult)
  ultimately have w_close:
    "close_to (B * (1 + u53) * (1 + u53) * (1 + u53) * (1 + u53) * (1 + u53))
       (of_int i * (1 + r)) w"
    unfolding w_def using i0 r by (intro close_b64) simp_all
  have f3: "rounding_factor r 3 = B * (1 + u53) * (1 + u53) * (1 + u53)"
    by (simp add: rounding_factor_def B_def eval_nat_numeral mult.assoc)
  have f5: "rounding_factor r 5 = B * (1 + u53) * (1 + u53) * (1 + u53) * (1 + u53) * (1 + u53)"
    by (simp add: rounding_factor_def B_def eval_nat_numeral mult.assoc)
  have s0: "s \<noteq> 0" using s1 by simp
  have ord: "fv_annuity_ordinary_b64 pw (PyInt i) r 1 = Inr (PyFloat v)"
    using r assms(1,2,5) s0
    by (simp add: fv_annuity_ordinary_b64_def Let_def to_float_int s_def [symmetric]
        d_def [symmetric] m_def [symmetric] v_def [symmetric])
  have due: "fv_annuity_b64 pw (PyInt i) r 1 True = Inr (PyFloat w)"
    by (simp add: fv_annuity_b64_def ord to_float_def s_def [symmetric] w_def [symmetric])
  have "\<bar>v - of_int i\<bar> \<le> of_int i * (rounding_factor r 3 - 1)"
    using v_close by (simp only: f3 close_to_def)
  moreover have "\<bar>w - of_int i * (1 + r)\<bar> \<le> of_int i * (1 + r) * (rounding_factor r 5 - 1)"
    using w_close by (simp only: f5 close_to_def)
  ultimately show "\<exists>v w. fv_annuity_ordinary_b64 pw (PyInt i) r 1 = Inr (PyFloat v)
                 \<and> fv_annuity_b64 pw (PyInt i) r 1 True = Inr (PyFloat w)
                 \<and> \<bar>v - of_int i\<bar> \<le> of_int i * (rounding_factor r 3 - 1)
                 \<and> \<bar>w - of_int i * (1 + r)\<bar>
                     \<le> of_int i * (1 + r) * (rounding_factor r 5 - 1)"
    using ord due by blast
qed

theorem fv_annuity_b64_one_period_witness:
  "(fv_annuity_ordinary_b64 pow_rn (PyInt 400000) 0 1 = Inr (PyInt 400000)
    \<and> fv_annuity_b64 pow_rn (PyInt 400000) 0 1 True = Inr (PyFloat 400000))
   \<and> (\<exists>v w. fv_annuity_ordinary_b64 pow_rn (PyInt 400000) (4803839602528529 / 2 ^ 60) 1
               = Inr (PyFloat v)
        \<and> fv_annuity_b64 pow_rn (PyInt 400000) (4803839602528529 / 2 ^ 60) 1 True
            = Inr (PyFloat w)
        \<and> \<bar>v - 400000\<bar> \<le> 400000 * (rounding_factor (4803839602528529 / 2 ^ 60) 3 - 1)
        \<and> \<bar>w - 400000 * (1 + 4803839602528529 / 2 ^ 60)\<bar>
             \<le> 400000 * (1 + 4803839602528529 / 2 ^ 60)
                 * (rounding_factor (4803839602528529 / 2 ^ 60) 5 - 1))"
proof
  have "pow_rn (b64 (1 + 0)) 1 = b64 (1 + 0)"
    by (rule pow_rn_one) simp
  then show "fv_annuity_ordinary_b64 pow_rn (PyInt 400000) 0 1 = Inr (PyInt 400000)
    \<and> fv_annuity_b64 pow_rn (PyInt 400000) 0 1 True = Inr (PyFloat 400000)"
    using fv_annuity_b64_one_period [of 400000 0 pow_rn] by simp
  have "pow_rn (b64 (1 + 4803839602528529 / 2 ^ 60)) 1 = b64 (1 + 4803839602528529 / 2 ^ 60)"
    by (rule pow_rn_one) simp
  then show "\<exists>v w. fv_annuity_ordinary_b64 pow_rn (PyInt 400000) (4803839602528529 / 2 ^ 60) 1
               = Inr (PyFloat v)
        \<and> fv_annuity_b64 pow_rn (PyInt 400000) (4803839602528529 / 2 ^ 60) 1 True
            = Inr (PyFloat w)
        \<and> \<bar>v - 400000\<bar> \<le> 400000 * (rounding_factor (4803839602528529 / 2 ^ 60) 3 - 1)
        \<and> \<bar>w - 400000 * (1 + 4803839602528529 / 2 ^ 60)\<bar>
             \<le> 400000 * (1 + 4803839602528529 / 2 ^ 60)
                 * (rounding_factor (4803839602528529 / 2 ^ 60) 5 - 1)"
    using fv_annuity_b64_one_period [of 400000 "4803839602528529 / 2 ^ 60" pow_rn] by simp
qed

end
